theory Spec2Isabelle
  imports Main
begin

section \<open>The set-backed multimap of \<^verbatim>\<open>setmultimap.go\<close>\<close>

text \<open>
  The Go package keeps a native map from keys to sets of values, a set being itself a
  native map \<^verbatim>\<open>map[V]struct{}\<close>. Keys and values are of any \<^verbatim>\<open>comparable\<close> type, and the
  maps find, replace and delete entries by Go's \<^verbatim>\<open>==\<close>. That relation is symmetric and
  transitive but not reflexive: a floating-point NaN, and every struct, array or interface
  value that holds one, is not equal to itself, so a map never finds it again.

  A native map is modelled as an association list: the list holds the entries in the
  order in which a \<^verbatim>\<open>range\<close> loop visits them. Go leaves that order unspecified; the model
  fixes one (a new entry goes to the end), and the properties below are about lengths,
  members and counts, which hold for every order.

  The struct is obtained from \<^verbatim>\<open>New\<close>, so its map field is an allocated map. Sizes are
  \<^verbatim>\<open>int\<close> in Go; they count what is held in memory and cannot overflow, so they are
  natural numbers here.
\<close>

subsection \<open>Comparable values and native maps\<close>

text \<open>
  A value of a comparable type is either equal to itself, and then \<^verbatim>\<open>==\<close> to exactly the
  values it cannot be told apart from by \<^verbatim>\<open>==\<close> (these are one \<open>Val x\<close>, so \<^verbatim>\<open>+0.0\<close> and
  \<^verbatim>\<open>-0.0\<close> are the same \<open>Val\<close>), or it is not equal to itself, and then \<^verbatim>\<open>==\<close> to nothing:
  \<open>NaN x\<close>, where \<open>x\<close> tells such values apart when they are read back.
\<close>

datatype 'a comparable = Val 'a | NaN 'a

fun goeq :: "'a comparable \<Rightarrow> 'a comparable \<Rightarrow> bool" where
  "goeq (Val x) (Val y) = (x = y)"
| "goeq (Val x) (NaN y) = False"
| "goeq (NaN x) b = False"

text \<open>The read \<^verbatim>\<open>x, ok := m[key]\<close>: the entry whose key is \<^verbatim>\<open>==\<close> to \<open>key\<close>, if there is one.\<close>

fun map_index :: "('a comparable \<times> 'b) list \<Rightarrow> 'a comparable \<Rightarrow> 'b option" where
  "map_index [] key = None"
| "map_index ((k, x) # al) key = (if goeq k key then Some x else map_index al key)"

text \<open>
  The assignment \<^verbatim>\<open>m[key] = x\<close>: the entry whose key is \<^verbatim>\<open>==\<close> to \<open>key\<close> gets the new
  value; when there is none (as for every NaN) a new entry is added.
\<close>

fun map_assign ::
  "('a comparable \<times> 'b) list \<Rightarrow> 'a comparable \<Rightarrow> 'b \<Rightarrow> ('a comparable \<times> 'b) list" where
  "map_assign [] key x = [(key, x)]"
| "map_assign ((k, y) # al) key x =
     (if goeq k key then (k, x) # al else (k, y) # map_assign al key x)"

text \<open>\<^verbatim>\<open>delete(m, key)\<close> removes the entry whose key is \<^verbatim>\<open>==\<close> to \<open>key\<close>; a NaN removes nothing.\<close>

definition map_delete :: "('a comparable \<times> 'b) list \<Rightarrow> 'a comparable \<Rightarrow> ('a comparable \<times> 'b) list" where
  "map_delete al key = filter (\<lambda>(k, x). \<not> goeq k key) al"

subsection \<open>Data\<close>

text \<open>\<^verbatim>\<open>var exists = struct{}{}\<close> and \<^verbatim>\<open>type Set[V comparable] map[V]struct{}\<close>.\<close>

definition exists :: unit where
  "exists = ()"

type_synonym 'v Set = "('v comparable \<times> unit) list"

record ('k, 'v) MultiMap =
  m :: "('k comparable \<times> 'v Set) list"

record ('k, 'v) Entry =
  Key :: 'k
  Value :: 'v

text \<open>The only way an operation of the package could fail: a store past the end of a slice.\<close>

datatype error = IndexOutOfRange

text \<open>
  Every Go type has a zero value, with which \<^verbatim>\<open>make([]T, n)\<close> fills the new slice. The
  class \<open>default\<close> provides it; the instances give Go's zero for numbers and strings.
\<close>

instantiation nat :: default
begin
definition default_nat :: nat where "default_nat = 0"
instance ..
end

instantiation int :: default
begin
definition default_int :: int where "default_int = 0"
instance ..
end

instantiation list :: (type) default
begin
definition default_list :: "'a list" where "default_list = []"
instance ..
end

instantiation comparable :: (default) default
begin
definition default_comparable :: "'a comparable" where "default_comparable = Val default"
instance ..
end

definition make :: "nat \<Rightarrow> 'a::default list" where
  "make n = replicate n default"

text \<open>\<^verbatim>\<open>xs[i] = v\<close> on a slice: Go panics when \<open>i\<close> is out of range.\<close>

definition store :: "'a list \<Rightarrow> nat \<Rightarrow> 'a \<Rightarrow> error + 'a list" where
  "store xs i v = (if i < length xs then Inr (xs[i := v]) else Inl IndexOutOfRange)"

text \<open>
  The comma-ok read \<^verbatim>\<open>set, found := m.m[key]\<close>: a missing key gives the nil set, which has
  length 0, no members, and nothing to range over.
\<close>

definition lookup :: "('k comparable \<times> 'v Set) list \<Rightarrow> 'k comparable \<Rightarrow> 'v Set \<times> bool" where
  "lookup al key = (case map_index al key of None \<Rightarrow> ([], False) | Some s \<Rightarrow> (s, True))"

text \<open>
  The loop shape shared by \<^verbatim>\<open>Get\<close> and \<^verbatim>\<open>KeySet\<close>, over the entries \<open>xs\<close> of a map:
  \<^verbatim>\<open>for k := range xs { out[count] = f k; count++ }\<close>.
\<close>

fun fill ::
  "('a \<Rightarrow> 'c) \<Rightarrow> 'c list \<Rightarrow> nat \<Rightarrow> ('a \<times> 'b) list \<Rightarrow> error + ('c list \<times> nat)" where
  "fill f out count [] = Inr (out, count)"
| "fill f out count ((k, x) # xs) =
     (case store out count (f k) of
        Inl e \<Rightarrow> Inl e
      | Inr out' \<Rightarrow> fill f out' (Suc count) xs)"

text \<open>
  The nested loop shared by \<^verbatim>\<open>Keys\<close>, \<^verbatim>\<open>Values\<close> and \<^verbatim>\<open>Entries\<close>:
  \<^verbatim>\<open>for key, set := range m.m { for value := range set { out[count] = f key value; count++ } }\<close>.
\<close>

fun fill_nested ::
  "('k comparable \<Rightarrow> 'v comparable \<Rightarrow> 'c) \<Rightarrow> 'c list \<Rightarrow> nat \<Rightarrow>
     ('k comparable \<times> 'v Set) list \<Rightarrow> error + ('c list \<times> nat)" where
  "fill_nested f out count [] = Inr (out, count)"
| "fill_nested f out count ((key, s) # rest) =
     (case fill (f key) out count s of
        Inl e \<Rightarrow> Inl e
      | Inr (out', count') \<Rightarrow> fill_nested f out' count' rest)"

subsection \<open>Operations\<close>

definition New :: "('k, 'v) MultiMap" where
  "New = \<lparr>m = []\<rparr>"

definition Get ::
  "('k, 'v::default) MultiMap \<Rightarrow> 'k comparable \<Rightarrow> error + ('v comparable list \<times> bool)" where
  "Get mm key =
     (let (s, found) = lookup (m mm) key
      in case fill (\<lambda>v. v) (make (length s)) 0 s of
           Inl e \<Rightarrow> Inl e
         | Inr (vals, count) \<Rightarrow> Inr (vals, found))"

text \<open>
  In \<^verbatim>\<open>Put\<close> and \<^verbatim>\<open>Remove\<close> the set that was found is the map's own (a Go map is a
  reference), so changing it changes the entry it was read from.
\<close>

definition Put :: "('k, 'v) MultiMap \<Rightarrow> 'k comparable \<Rightarrow> 'v comparable \<Rightarrow> ('k, 'v) MultiMap" where
  "Put mm key v =
     (let (s, found) = lookup (m mm) key
      in if found then mm\<lparr>m := map_assign (m mm) key (map_assign s v exists)\<rparr>
         else mm\<lparr>m := map_assign (m mm) key (map_assign [] v exists)\<rparr>)"

fun PutAll :: "('k, 'v) MultiMap \<Rightarrow> 'k comparable \<Rightarrow> 'v comparable list \<Rightarrow> ('k, 'v) MultiMap" where
  "PutAll mm key [] = mm"
| "PutAll mm key (v # vs) = PutAll (Put mm key v) key vs"

definition Contains :: "('k, 'v) MultiMap \<Rightarrow> 'k comparable \<Rightarrow> 'v comparable \<Rightarrow> bool" where
  "Contains mm key v =
     (let (s, found) = lookup (m mm) key
      in if map_index s v \<noteq> None then found else False)"

definition ContainsKey :: "('k, 'v) MultiMap \<Rightarrow> 'k comparable \<Rightarrow> bool" where
  "ContainsKey mm key = snd (lookup (m mm) key)"



definition Remove :: "('k, 'v) MultiMap \<Rightarrow> 'k comparable \<Rightarrow> 'v comparable \<Rightarrow> ('k, 'v) MultiMap" where
  "Remove mm key v =
     (let (s, found) = lookup (m mm) key;
          mm1 = (if found then mm\<lparr>m := map_assign (m mm) key (map_delete s v)\<rparr> else mm)
      in if length (fst (lookup (m mm1) key)) = 0
         then mm1\<lparr>m := map_delete (m mm1) key\<rparr>
         else mm1)"

definition RemoveAll :: "('k, 'v) MultiMap \<Rightarrow> 'k comparable \<Rightarrow> ('k, 'v) MultiMap" where
  "RemoveAll mm key = mm\<lparr>m := map_delete (m mm) key\<rparr>"

fun Size_loop :: "nat \<Rightarrow> ('k comparable \<times> 'v Set) list \<Rightarrow> nat" where
  "Size_loop sz [] = sz"
| "Size_loop sz ((key, s) # rest) = Size_loop (sz + length s) rest"

definition Size :: "('k, 'v) MultiMap \<Rightarrow> nat" where
  "Size mm = Size_loop 0 (m mm)"

definition Empty :: "('k, 'v) MultiMap \<Rightarrow> bool" where
  "Empty mm = (Size mm = 0)"

definition Keys :: "('k::default, 'v) MultiMap \<Rightarrow> error + 'k comparable list" where
  "Keys mm =
     (case fill_nested (\<lambda>key v. key) (make (Size mm)) 0 (m mm) of
        Inl e \<Rightarrow> Inl e
      | Inr (keys, count) \<Rightarrow> Inr keys)"

definition KeySet :: "('k::default, 'v) MultiMap \<Rightarrow> error + 'k comparable list" where
  "KeySet mm =
     (case fill (\<lambda>key. key) (make (length (m mm))) 0 (m mm) of
        Inl e \<Rightarrow> Inl e
      | Inr (keys, count) \<Rightarrow> Inr keys)"

definition Values :: "('k, 'v::default) MultiMap \<Rightarrow> error + 'v comparable list" where
  "Values mm =
     (case fill_nested (\<lambda>key v. v) (make (Size mm)) 0 (m mm) of
        Inl e \<Rightarrow> Inl e
      | Inr (vals, count) \<Rightarrow> Inr vals)"

definition Entries ::
  "('k::default, 'v::default) MultiMap \<Rightarrow> error + ('k comparable, 'v comparable) Entry list" where
  "Entries mm =
     (case fill_nested (\<lambda>key v. \<lparr>Key = key, Value = v\<rparr>)
             (replicate (Size mm) \<lparr>Key = default, Value = default\<rparr>) 0 (m mm) of
        Inl e \<Rightarrow> Inl e
      | Inr (entries, count) \<Rightarrow> Inr entries)"

definition Clear :: "('k, 'v) MultiMap \<Rightarrow> ('k, 'v) MultiMap" where
  "Clear mm = mm\<lparr>m := []\<rparr>"

subsection \<open>States\<close>

text \<open>The states a client can produce: \<^verbatim>\<open>New\<close> followed by the mutating operations.\<close>

inductive reachable :: "('k, 'v) MultiMap \<Rightarrow> bool" where
  r_New: "reachable New"
| r_Put: "reachable mm \<Longrightarrow> reachable (Put mm key v)"
| r_PutAll: "reachable mm \<Longrightarrow> reachable (PutAll mm key vs)"
| r_Remove: "reachable mm \<Longrightarrow> reachable (Remove mm key v)"
| r_RemoveAll: "reachable mm \<Longrightarrow> reachable (RemoveAll mm key)"
| r_Clear: "reachable mm \<Longrightarrow> reachable (Clear mm)"

text \<open>
  A Go map never holds two keys that are \<^verbatim>\<open>==\<close>. The lists that stand for the Go maps of a
  multimap are therefore the ones accepted by \<open>wf\<close>: no two keys, and no two members of a
  value set, are \<^verbatim>\<open>==\<close>.
\<close>

fun go_distinct :: "'a comparable list \<Rightarrow> bool" where
  "go_distinct [] = True"
| "go_distinct (x # xs) = (\<not> list_ex (goeq x) xs \<and> go_distinct xs)"

definition wf :: "('k, 'v) MultiMap \<Rightarrow> bool" where
  "wf mm \<longleftrightarrow>
     go_distinct (map fst (m mm)) \<and> list_all (\<lambda>(key, s). go_distinct (map fst s)) (m mm)"

text \<open>
  The states in which every key and every value held is equal to itself: no NaN has been
  put.
\<close>

definition self_equal :: "('k, 'v) MultiMap \<Rightarrow> bool" where
  "self_equal mm \<longleftrightarrow>
     list_all (\<lambda>(key, s). goeq key key \<and> list_all (\<lambda>(v, u). goeq v v) s) (m mm)"

text \<open>The invariant of the data model: no key is kept with an empty value set.\<close>

definition nonempty_sets :: "('k, 'v) MultiMap \<Rightarrow> bool" where
  "nonempty_sets mm \<longleftrightarrow> list_all (\<lambda>(key, s). s \<noteq> []) (m mm)"

text \<open>
  The stored pairs, one \<open>f key v\<close> for each, in the order in which the nested loops visit
  them.
\<close>

definition flat ::
  "('k comparable \<Rightarrow> 'v comparable \<Rightarrow> 'c) \<Rightarrow> ('k comparable \<times> 'v Set) list \<Rightarrow> 'c list" where
  "flat f al = concat (map (\<lambda>(key, s). map (f key) (map fst s)) al)"

section \<open>Go's equality and native maps\<close>

subsection \<open>Equality\<close>

lemma goeq_iff: "goeq a b \<longleftrightarrow> a = b \<and> goeq a a"
  by (cases a; cases b) auto

lemma goeq_Val: "goeq a a \<longleftrightarrow> (\<exists>x. a = Val x)"
  by (cases a) auto

lemma goeq_sym: "goeq a b = goeq b a"
  by (cases a; cases b) auto

lemma goeq_trans_left: "goeq e k \<Longrightarrow> goeq e k' = goeq k k'"
  by (cases e; cases k; cases k') auto

lemma goeq_eq: "goeq a b \<Longrightarrow> a = b"
  by (cases a; cases b) auto

lemma goeq_right_refl: "goeq e k \<Longrightarrow> goeq k k"
  by (cases e; cases k) auto

lemma goeq_self: "goeq v v \<Longrightarrow> goeq e v = (e = v)"
  by (cases e; cases v) auto

lemma goeq_self_left: "goeq x x \<Longrightarrow> goeq x e = (x = e)"
  by (cases x; cases e) auto

subsection \<open>Native maps\<close>

lemma map_index_assign:
  "map_index (map_assign al k x) k' = (if goeq k k' then Some x else map_index al k')"
proof (induction al)
  case Nil
  show ?case by simp
next
  case (Cons a al)
  obtain e y where a: "a = (e, y)" by (cases a)
  show ?case
  proof (cases "goeq e k")
    case True
    then show ?thesis by (simp add: a goeq_trans_left)
  next
    case False
    show ?thesis
    proof (cases "goeq e k'")
      case True
      with False have "\<not> goeq k k'"
        by (metis goeq_iff goeq_sym)
      with True False show ?thesis by (simp add: a)
    next
      case no: False
      with False Cons.IH show ?thesis by (simp add: a)
    qed
  qed
qed

lemma map_index_delete:
  "map_index (map_delete al k) k' = (if goeq k k' then None else map_index al k')"
proof (induction al)
  case Nil
  show ?case by (simp add: map_delete_def)
next
  case (Cons a al)
  obtain e y where a: "a = (e, y)" by (cases a)
  have IH: "map_index (filter (\<lambda>(k', x). \<not> goeq k' k) al) k' =
            (if goeq k k' then None else map_index al k')"
    using Cons.IH by (simp add: map_delete_def)
  show ?case
  proof (cases "goeq e k")
    case True
    then show ?thesis
      by (simp add: a map_delete_def IH goeq_trans_left)
  next
    case False
    show ?thesis
    proof (cases "goeq e k'")
      case True
      with False have "\<not> goeq k k'"
        by (metis goeq_iff goeq_sym)
      with True False show ?thesis by (simp add: a map_delete_def)
    next
      case no: False
      with False show ?thesis by (simp add: a map_delete_def IH)
    qed
  qed
qed

lemma map_index_None_iff: "map_index al k = None \<longleftrightarrow> (\<forall>e \<in> fst ` set al. \<not> goeq e k)"
  by (induction al) (auto split: if_splits)

lemma map_index_found_iff: "map_index al k \<noteq> None \<longleftrightarrow> goeq k k \<and> k \<in> fst ` set al"
proof -
  have "(\<exists>e \<in> fst ` set al. goeq e k) \<longleftrightarrow> goeq k k \<and> k \<in> fst ` set al"
    by (metis goeq_iff goeq_sym)
  then show ?thesis
    by (simp add: map_index_None_iff)
qed

lemma map_index_absent: "\<not> goeq key key \<Longrightarrow> map_index al key = None"
  by (auto simp: map_index_None_iff dest: goeq_right_refl)

lemma map_index_Some_goeq: "map_index al k = Some x \<Longrightarrow> goeq k k"
  using map_index_found_iff [of al k] by simp

lemma map_index_in_set: "map_index al k = Some x \<Longrightarrow> (k, x) \<in> set al"
proof (induction al)
  case Nil
  then show ?case by simp
next
  case (Cons a al)
  obtain e y where a: "a = (e, y)" by (cases a)
  show ?case
  proof (cases "goeq e k")
    case True
    then have "e = k" by (simp add: goeq_iff [of e k])
    with True Cons.prems show ?thesis by (simp add: a)
  next
    case False
    with Cons show ?thesis by (simp add: a)
  qed
qed

lemma map_assign_same: "map_index al k = Some x \<Longrightarrow> map_assign al k x = al"
proof (induction al)
  case Nil
  then show ?case by simp
next
  case (Cons a al)
  obtain e y where a: "a = (e, y)" by (cases a)
  from Cons show ?case by (cases "goeq e k") (simp_all add: a)
qed

lemma map_delete_absent: "map_index al k = None \<Longrightarrow> map_delete al k = al"
proof -
  assume "map_index al k = None"
  then have "\<forall>e \<in> set al. \<not> goeq (fst e) k"
    by (simp add: map_index_None_iff)
  then have "filter (\<lambda>e. \<not> goeq (fst e) k) al = al"
    by (simp add: filter_id_conv)
  then show ?thesis
    by (simp add: map_delete_def case_prod_unfold)
qed

lemma map_delete_assign:
  "goeq k k \<Longrightarrow> map_delete (map_assign al k x) k = map_delete al k"
proof (induction al)
  case Nil
  then show ?case by (simp add: map_delete_def)
next
  case (Cons a al)
  obtain e y where a: "a = (e, y)" by (cases a)
  from Cons show ?case
    by (cases "goeq e k") (simp_all add: a map_delete_def)
qed

lemma map_assign_not_Nil: "map_assign al k x \<noteq> []"
proof (cases al)
  case Nil
  then show ?thesis by simp
next
  case (Cons a al')
  obtain e y where a: "a = (e, y)" by (cases a)
  show ?thesis by (cases "goeq e k") (simp_all add: Cons a)
qed

lemma length_map_assign:
  "length (map_assign al k x) = (if map_index al k = None then Suc (length al) else length al)"
proof (induction al)
  case Nil
  show ?case by simp
next
  case (Cons a al)
  obtain e y where a: "a = (e, y)" by (cases a)
  from Cons show ?case by (cases "goeq e k") (simp_all add: a)
qed

lemma keys_map_assign:
  "map fst (map_assign al k x) =
     (if map_index al k = None then map fst al @ [k] else map fst al)"
proof (induction al)
  case Nil
  show ?case by simp
next
  case (Cons a al)
  obtain e y where a: "a = (e, y)" by (cases a)
  from Cons show ?case by (cases "goeq e k") (simp_all add: a)
qed

lemma keys_map_delete: "map fst (map_delete al k) = filter (\<lambda>e. \<not> goeq e k) (map fst al)"
  by (induction al) (auto simp: map_delete_def)

lemma list_all_assign:
  "list_all (\<lambda>(key, s). P s) al \<Longrightarrow> P s' \<Longrightarrow> list_all (\<lambda>(key, s). P s) (map_assign al k s')"
  by (induction al) auto

lemma list_all_delete: "list_all P al \<Longrightarrow> list_all P (map_delete al k)"
  by (induction al) (auto simp: map_delete_def)

lemma map_index_list_all:
  "list_all (\<lambda>(key, s). P s) al \<Longrightarrow> map_index al k = Some s \<Longrightarrow> P s"
  by (induction al) (auto split: if_splits)

lemma lookup_None: "map_index al key = None \<Longrightarrow> lookup al key = ([], False)"
  by (simp add: lookup_def)

lemma lookup_Some: "map_index al key = Some s \<Longrightarrow> lookup al key = (s, True)"
  by (simp add: lookup_def)

lemma lookup_all:
  "list_all (\<lambda>(key, s). P s) al \<Longrightarrow> P [] \<Longrightarrow> P (fst (lookup al k))"
  by (auto simp: lookup_def dest: map_index_list_all split: option.splits)

section \<open>The loops and the slices they fill\<close>

text \<open>
  The stores of the filling loops stay in range: each loop returns the slice with the
  visited elements written from \<open>count\<close> on, so the views never fail.
\<close>

lemma fill_ok:
  "count + length xs \<le> length out \<Longrightarrow>
   fill f out count xs =
     Inr (take count out @ map f (map fst xs) @ drop (count + length xs) out,
          count + length xs)"
proof (induction xs arbitrary: out count)
  case Nil
  then show ?case by simp
next
  case (Cons a xs)
  obtain k x where a: "a = (k, x)" by (cases a)
  from Cons.prems have lt: "count < length out" by simp
  have le: "Suc count + length xs \<le> length (out[count := f k])"
    using Cons.prems by simp
  have tk: "take (Suc count) (out[count := f k]) = take count out @ [f k]"
    using lt by (simp add: take_Suc_conv_app_nth)
  show ?case
    using lt by (simp add: a store_def Cons.IH [OF le] tk)
qed

lemma flat_Cons: "flat f ((key, s) # al) = map (f key) (map fst s) @ flat f al"
  by (simp add: flat_def)

lemma fill_nested_ok:
  "count + length (flat f al) \<le> length out \<Longrightarrow>
   fill_nested f out count al =
     Inr (take count out @ flat f al @ drop (count + length (flat f al)) out,
          count + length (flat f al))"
proof (induction al arbitrary: out count)
  case Nil
  then show ?case by (simp add: flat_def)
next
  case (Cons a al)
  obtain key s where a: "a = (key, s)" by (cases a)
  define n where "n = length (flat f al)"
  define out1
    where "out1 = take count out @ map (f key) (map fst s) @ drop (count + length s) out"
  from Cons.prems have le: "count + length s + n \<le> length out"
    by (simp add: a flat_Cons n_def)
  then have inner: "fill (f key) out count s = Inr (out1, count + length s)"
    by (simp add: fill_ok out1_def)
  have len1: "length out1 = length out"
    using le by (simp add: out1_def)
  have tk: "take (count + length s) out1 = take count out @ map (f key) (map fst s)"
    using le by (simp add: out1_def)
  have dr: "drop (count + length s + n) out1 = drop (count + length s + n) out"
    using le by (simp add: out1_def add.commute)
  have "fill_nested f out1 (count + length s) al =
          Inr (take (count + length s) out1 @ flat f al @ drop (count + length s + n) out1,
               count + length s + n)"
    unfolding n_def by (rule Cons.IH) (use le len1 in \<open>simp add: n_def\<close>)
  with tk dr show ?case
    by (simp add: a inner flat_Cons n_def add.assoc)
qed

lemma Size_loop_eq: "Size_loop sz al = sz + sum_list (map (\<lambda>(key, s). length s) al)"
  by (induction al arbitrary: sz) auto

lemma length_flat: "length (flat f al) = sum_list (map (\<lambda>(key, s). length s) al)"
  by (induction al) (auto simp: flat_def)

lemma Size_eq: "Size mm = sum_list (map (\<lambda>(key, s). length s) (m mm))"
  by (simp add: Size_def Size_loop_eq)

lemma Size_flat: "Size mm = length (flat f (m mm))"
  by (simp add: Size_eq length_flat)

lemma Get_eq: "Get mm key = Inr (map fst (fst (lookup (m mm) key)), snd (lookup (m mm) key))"
  by (simp add: Get_def make_def fill_ok split: prod.splits)

lemma KeySet_eq: "KeySet mm = Inr (map fst (m mm))"
  by (simp add: KeySet_def make_def fill_ok)

lemma Keys_eq: "Keys mm = Inr (flat (\<lambda>key v. key) (m mm))"
  by (simp add: Keys_def make_def fill_nested_ok Size_flat [where f = "\<lambda>key v. key"])

lemma Values_eq: "Values mm = Inr (flat (\<lambda>key v. v) (m mm))"
  by (simp add: Values_def make_def fill_nested_ok Size_flat [where f = "\<lambda>key v. v"])

lemma Entries_eq: "Entries mm = Inr (flat (\<lambda>key v. \<lparr>Key = key, Value = v\<rparr>) (m mm))"
  by (simp add: Entries_def fill_nested_ok
        Size_flat [where f = "\<lambda>key v. \<lparr>Key = key, Value = v\<rparr>"])

subsection \<open>The mutators on the underlying map, and what they preserve\<close>

lemma Put_m:
  "m (Put mm key v) =
     map_assign (m mm) key (map_assign (fst (lookup (m mm) key)) v exists)"
  by (simp add: Put_def lookup_def split: option.splits)

lemma Remove_m:
  "m (Remove mm key v) =
     (case map_index (m mm) key of
        None \<Rightarrow> m mm
      | Some s \<Rightarrow> if map_delete s v = [] then map_delete (m mm) key
                  else map_assign (m mm) key (map_delete s v))"
proof (cases "map_index (m mm) key")
  case None
  then show ?thesis
    by (simp add: Remove_def lookup_def map_delete_absent)
next
  case (Some s)
  then have "goeq key key" by (rule map_index_Some_goeq)
  with Some show ?thesis
    by (simp add: Remove_def lookup_def map_index_assign map_delete_assign)
qed

lemma RemoveAll_m: "m (RemoveAll mm key) = map_delete (m mm) key"
  by (simp add: RemoveAll_def)

lemma ne_Put: "nonempty_sets mm \<Longrightarrow> nonempty_sets (Put mm key v)"
  unfolding nonempty_sets_def Put_m
  by (rule list_all_assign [where P = "\<lambda>s. s \<noteq> []"]) (simp_all add: map_assign_not_Nil)

lemma ne_Remove: "nonempty_sets mm \<Longrightarrow> nonempty_sets (Remove mm key v)"
  unfolding nonempty_sets_def Remove_m
  by (auto simp: list_all_delete intro!: list_all_assign [where P = "\<lambda>s. s \<noteq> []"]
           split: option.splits)

lemma ne_RemoveAll: "nonempty_sets mm \<Longrightarrow> nonempty_sets (RemoveAll mm key)"
  by (simp add: nonempty_sets_def RemoveAll_def list_all_delete)

lemma ne_PutAll: "nonempty_sets mm \<Longrightarrow> nonempty_sets (PutAll mm key vs)"
  by (induction vs arbitrary: mm) (simp_all add: ne_Put)

lemma reachable_ne: "reachable mm \<Longrightarrow> nonempty_sets mm"
proof (induction rule: reachable.induct)
  case r_New
  show ?case by (simp add: nonempty_sets_def New_def)
next
  case (r_Clear mm)
  show ?case by (simp add: nonempty_sets_def Clear_def)
qed (simp_all add: ne_Put ne_PutAll ne_Remove ne_RemoveAll)

text \<open>No operation makes two keys, or two members of a set, that are \<^verbatim>\<open>==\<close>.\<close>

lemma go_distinct_snoc:
  "go_distinct (xs @ [k]) \<longleftrightarrow> go_distinct xs \<and> (\<forall>e \<in> set xs. \<not> goeq e k)"
  by (induction xs) (auto simp: list_ex_iff)

lemma go_distinct_filter: "go_distinct xs \<Longrightarrow> go_distinct (filter P xs)"
  by (induction xs) (auto simp: list_ex_iff)

lemma go_distinct_assign:
  "go_distinct (map fst al) \<Longrightarrow> go_distinct (map fst (map_assign al k x))"
  by (simp add: keys_map_assign go_distinct_snoc map_index_None_iff)

lemma go_distinct_delete:
  "go_distinct (map fst al) \<Longrightarrow> go_distinct (map fst (map_delete al k))"
  by (simp add: keys_map_delete go_distinct_filter)

lemma wf_Put: "wf mm \<Longrightarrow> wf (Put mm key v)"
proof -
  assume w: "wf mm"
  then have "go_distinct (map fst (fst (lookup (m mm) key)))"
    unfolding wf_def
    by (elim conjE) (rule lookup_all [where P = "\<lambda>s. go_distinct (map fst s)"], simp_all)
  then have "go_distinct (map fst (map_assign (fst (lookup (m mm) key)) v exists))"
    by (rule go_distinct_assign)
  with w show ?thesis
    unfolding wf_def Put_m
    by (auto simp: go_distinct_assign
             intro!: list_all_assign [where P = "\<lambda>s. go_distinct (map fst s)"])
qed

lemma wf_Remove: "wf mm \<Longrightarrow> wf (Remove mm key v)"
  unfolding wf_def Remove_m
  by (auto simp: go_distinct_assign go_distinct_delete list_all_delete
           intro!: list_all_assign [where P = "\<lambda>s. go_distinct (map fst s)"]
           dest: map_index_list_all [where P = "\<lambda>s. go_distinct (map fst s)"]
           split: option.splits)

lemma wf_RemoveAll: "wf mm \<Longrightarrow> wf (RemoveAll mm key)"
  by (simp add: wf_def RemoveAll_def go_distinct_delete list_all_delete)

lemma wf_PutAll: "wf mm \<Longrightarrow> wf (PutAll mm key vs)"
  by (induction vs arbitrary: mm) (simp_all add: wf_Put)

lemma reachable_wf: "reachable mm \<Longrightarrow> wf mm"
proof (induction rule: reachable.induct)
  case r_New
  show ?case by (simp add: wf_def New_def)
next
  case (r_Clear mm)
  show ?case by (simp add: wf_def Clear_def)
qed (simp_all add: wf_Put wf_PutAll wf_Remove wf_RemoveAll)

section \<open>What the observers see\<close>

lemma ContainsKey_iff: "ContainsKey mm key \<longleftrightarrow> map_index (m mm) key \<noteq> None"
  by (simp add: ContainsKey_def lookup_def split: option.splits)

lemma member_iff:
  "map_index (s :: ('a comparable \<times> unit) list) v \<noteq> None \<longleftrightarrow> goeq v v \<and> v \<in> fst ` set s"
  by (rule map_index_found_iff)

lemma Contains_iff:
  "Contains mm key v \<longleftrightarrow>
     (\<exists>s. map_index (m mm) key = Some s \<and> goeq v v \<and> v \<in> fst ` set s)"
proof (cases "map_index (m mm) key")
  case None
  then show ?thesis by (simp add: Contains_def lookup_def)
next
  case (Some s)
  have "Contains mm key v \<longleftrightarrow> map_index s v \<noteq> None"
    using Some by (simp add: Contains_def lookup_def del: not_None_eq)
  then show ?thesis
    using Some by (simp only: member_iff) simp
qed

lemma ne_lookup:
  "nonempty_sets mm \<Longrightarrow> map_index (m mm) key = Some s \<Longrightarrow> s \<noteq> []"
  unfolding nonempty_sets_def by (rule map_index_list_all [where P = "\<lambda>s. s \<noteq> []"])

lemma map_index_Put:
  "map_index (m (Put mm key v)) k' =
     (if goeq key k' then Some (map_assign (fst (lookup (m mm) key)) v exists)
      else map_index (m mm) k')"
  by (simp add: Put_m map_index_assign)

lemma map_index_Remove:
  "map_index (m (Remove mm key v)) k' =
     (if goeq key k'
      then (case map_index (m mm) key of
              None \<Rightarrow> None
            | Some s \<Rightarrow> if map_delete s v = [] then None else Some (map_delete s v))
      else map_index (m mm) k')"
proof (cases "goeq key k'")
  case True
  then have "k' = key" by (simp add: goeq_iff [of key k'])
  with True show ?thesis
    by (simp add: Remove_m map_index_assign map_index_delete split: option.splits)
next
  case False
  then show ?thesis
    by (simp add: Remove_m map_index_assign map_index_delete split: option.splits)
qed

section \<open>The properties of the operations\<close>

subsection \<open>No key without values\<close>

text \<open>
  C1. In every state reachable from the empty multimap by \<^verbatim>\<open>Put\<close>, \<^verbatim>\<open>PutAll\<close>,
  \<^verbatim>\<open>Remove\<close>, \<^verbatim>\<open>RemoveAll\<close> and \<^verbatim>\<open>Clear\<close>, every entry of the underlying map has a
  non-empty value set. So a key that \<^verbatim>\<open>ContainsKey\<close> reports is held with at least one
  value, which \<^verbatim>\<open>Get\<close> returns; and every key that \<^verbatim>\<open>KeySet\<close> returns is the key of an
  entry with at least one value.
\<close>

theorem no_key_without_values:
  assumes "reachable mm"
  shows "(\<forall>key s. (key, s) \<in> set (m mm) \<longrightarrow> s \<noteq> []) \<and>
         (\<forall>key. ContainsKey mm key \<longrightarrow>
            (\<exists>s. map_index (m mm) key = Some s \<and> s \<noteq> []) \<and>
            (\<exists>vs. Get mm key = Inr (vs, True) \<and> vs \<noteq> [])) \<and>
         (\<exists>ks. KeySet mm = Inr ks \<and> ks = map fst (m mm) \<and>
            (\<forall>key \<in> set ks. \<exists>s. (key, s) \<in> set (m mm) \<and> s \<noteq> []) \<and>
            (\<forall>key \<in> set ks. goeq key key \<longrightarrow>
               ContainsKey mm key \<and> (\<exists>vs. Get mm key = Inr (vs, True) \<and> vs \<noteq> [])))"
proof -
  from assms have ne: "nonempty_sets mm" by (rule reachable_ne)
  have a: "\<forall>key s. (key, s) \<in> set (m mm) \<longrightarrow> s \<noteq> []"
    using ne by (auto simp: nonempty_sets_def list_all_iff)
  have b: "(\<exists>s. map_index (m mm) key = Some s \<and> s \<noteq> []) \<and>
           (\<exists>vs. Get mm key = Inr (vs, True) \<and> vs \<noteq> [])"
    if "ContainsKey mm key" for key
  proof -
    from that obtain s where s: "map_index (m mm) key = Some s"
      by (auto simp: ContainsKey_iff)
    with ne have "s \<noteq> []" by (rule ne_lookup)
    with s show ?thesis
      by (simp add: Get_eq lookup_Some)
  qed
  have c: "\<exists>s. (key, s) \<in> set (m mm) \<and> s \<noteq> []" if "key \<in> set (map fst (m mm))" for key
    using that a by fastforce
  have d: "ContainsKey mm key" if "key \<in> set (map fst (m mm))" and "goeq key key" for key
    using that by (simp add: ContainsKey_iff map_index_found_iff del: not_None_eq)
  from a b c d show ?thesis
    by (simp add: KeySet_eq)
qed

theorem no_key_without_values_witness:
  "reachable (Remove (Put (Put New (Val ''a'') (Val (1::int))) (NaN ''b'') (Val 2)) (Val ''a'') (Val 1)) \<and>
   KeySet (Remove (Put (Put New (Val ''a'') (Val (1::int))) (NaN ''b'') (Val 2)) (Val ''a'') (Val 1))
     = Inr [NaN ''b''] \<and>
   \<not> ContainsKey
       (Remove (Put (Put New (Val ''a'') (Val (1::int))) (NaN ''b'') (Val 2)) (Val ''a'') (Val 1))
       (Val ''a'') \<and>
   (\<exists>s. (NaN ''b'', s) \<in>
          set (m (Remove (Put (Put New (Val ''a'') (Val (1::int))) (NaN ''b'') (Val 2))
                   (Val ''a'') (Val 1))) \<and> s \<noteq> [])"
proof -
  let ?X = "Remove (Put (Put New (Val ''a'') (Val (1::int))) (NaN ''b'') (Val 2)) (Val ''a'') (Val 1)"
  have r: "reachable ?X"
    by (intro reachable.intros)
  have e: "m ?X = [(NaN ''b'', [(Val 2, ())])]"
    by (simp add: Remove_def Put_def New_def lookup_def map_delete_def)
  have ks: "KeySet ?X = Inr [NaN ''b'']"
    unfolding KeySet_def e by (simp add: make_def store_def)
  have nk: "\<not> ContainsKey ?X (Val ''a'')"
    unfolding ContainsKey_def e by (simp add: lookup_def)
  from r ks nk no_key_without_values [OF r] show ?thesis
    by auto
qed

subsection \<open>Put\<close>

lemma sum_assign:
  "sum_list (map (\<lambda>(key, s). length s) (map_assign al k s')) + length (fst (lookup al k)) =
   sum_list (map (\<lambda>(key, s). length s) al) + length s'"
proof (induction al)
  case Nil
  show ?case by (simp add: lookup_def)
next
  case (Cons a al)
  obtain k0 s0 where a: "a = (k0, s0)" by (cases a)
  show ?case
  proof (cases "goeq k0 k")
    case True
    then show ?thesis by (simp add: a lookup_def)
  next
    case False
    have "lookup (a # al) k = lookup al k"
      using False by (simp add: a lookup_def)
    with Cons.IH False show ?thesis by (simp add: a)
  qed
qed

lemma Contains_lookup: "Contains mm key v \<longleftrightarrow> map_index (fst (lookup (m mm) key)) v \<noteq> None"
  by (simp add: Contains_def lookup_def split: option.splits)

lemma Size_Put:
  "Size (Put mm key v) = (if Contains mm key v then Size mm else Size mm + 1)"
proof -
  let ?s = "fst (lookup (m mm) key)"
  have "Size (Put mm key v) + length ?s = Size mm + length (map_assign ?s v exists)"
    by (simp only: Size_eq Put_m sum_assign)
  then show ?thesis
    by (simp add: Contains_lookup length_map_assign split: if_splits)
qed

lemma Contains_Put:
  assumes "goeq key key" and "goeq v v"
  shows "Contains (Put mm key v) k' v' \<longleftrightarrow> Contains mm k' v' \<or> (k' = key \<and> v' = v)"
proof (cases "goeq key k'")
  case True
  then have k: "k' = key" by (simp add: goeq_iff [of key k'])
  have "map_index (map_assign (fst (lookup (m mm) key)) v exists) v' \<noteq> None \<longleftrightarrow>
        map_index (fst (lookup (m mm) key)) v' \<noteq> None \<or> v' = v"
    using assms(2) by (auto simp: map_index_assign goeq_iff [of v v'])
  with True show ?thesis
    by (simp add: k Contains_lookup [of "Put mm key v"] Contains_lookup [of mm]
          lookup_def [of "m (Put mm key v)"] map_index_Put del: not_None_eq)
next
  case False
  with assms(1) have "k' \<noteq> key" by auto
  with False show ?thesis
    by (simp add: Contains_iff map_index_Put)
qed

lemma Put_noop: "Contains mm key v \<Longrightarrow> Put mm key v = mm"
proof -
  assume c: "Contains mm key v"
  then obtain s where s: "map_index (m mm) key = Some s" and v: "map_index s v \<noteq> None"
    by (auto simp: Contains_def lookup_def split: option.splits if_splits)
  from v have "map_assign s v exists = s"
    by (auto intro: map_assign_same)
  then have "m (Put mm key v) = m mm"
    using s by (simp add: Put_m lookup_Some map_assign_same)
  moreover have "MultiMap.more (Put mm key v) = MultiMap.more mm"
    by (simp add: Put_def split: prod.splits)
  ultimately show ?thesis by simp
qed

lemma Put_twice:
  assumes "goeq key key" and "goeq v v"
  shows "Put (Put mm key v) key v = Put mm key v"
  by (rule Put_noop) (simp add: Contains_Put assms)

text \<open>
  C2, as the specification states it: after \<^verbatim>\<open>Put(k, v)\<close>, \<^verbatim>\<open>Contains(k, v)\<close> is true, and
  putting a pair again is a no-op, for every value. Not so for a value that is not equal to
  itself: with \<open>V = float64\<close> and \<open>v\<close> a NaN, \<^verbatim>\<open>Contains\<close> never finds the stored \<open>v\<close>, and a
  second \<^verbatim>\<open>Put\<close> stores it a second time.
\<close>

theorem Put_NaN_counterexample:
  "\<not> Contains (Put New (Val ''a'') (NaN (0::int))) (Val ''a'') (NaN 0) \<and>
   Size (Put New (Val ''a'') (NaN (0::int))) = 1 \<and>
   Size (Put (Put New (Val ''a'') (NaN (0::int))) (Val ''a'') (NaN 0)) = 2"
  by (simp add: Contains_def Size_def Put_def New_def lookup_def)

text \<open>
  C2, amended. For every key \<open>k\<close>, value \<open>v\<close> and state, \<^verbatim>\<open>Put(k, v)\<close> has no error result
  and \<^verbatim>\<open>Size\<close> grows by 0 when \<^verbatim>\<open>Contains(k, v)\<close> held before (the state is then unchanged)
  and by 1 otherwise, so by at most 1. When \<open>k\<close> and \<open>v\<close> are equal to themselves under
  \<^verbatim>\<open>==\<close>, \<^verbatim>\<open>Contains(k, v)\<close> is true after \<^verbatim>\<open>Put(k, v)\<close>, and putting the pair a second time
  changes nothing.
\<close>

theorem Put_adds_the_pair:
  "Size (Put mm key v) = (if Contains mm key v then Size mm else Size mm + 1) \<and>
   Size mm \<le> Size (Put mm key v) \<and> Size (Put mm key v) \<le> Size mm + 1 \<and>
   (Contains mm key v \<longrightarrow> Put mm key v = mm) \<and>
   (goeq key key \<and> goeq v v \<longrightarrow>
      Contains (Put mm key v) key v \<and> Put (Put mm key v) key v = Put mm key v)"
  by (simp add: Size_Put Put_noop Contains_Put Put_twice)

theorem Put_adds_the_pair_witness:
  "goeq (Val ''a'') (Val ''a'') \<and> goeq (Val (1::int)) (Val 1) \<and>
   Contains (Put New (Val ''a'') (Val (1::int))) (Val ''a'') (Val 1) \<and>
   Put (Put New (Val ''a'') (Val (1::int))) (Val ''a'') (Val 1) = Put New (Val ''a'') (Val 1) \<and>
   Size (Put New (Val ''a'') (Val (1::int))) = 1 \<and>
   Size (Put (Put New (Val ''a'') (Val (1::int))) (Val ''a'') (Val 1)) = 1 \<and>
   \<not> Contains (Put New (Val ''a'') (Val (1::int))) (Val ''a'') (Val 2) \<and>
   Size (Put (Put New (Val ''a'') (Val (1::int))) (Val ''a'') (Val 2)) = 2"
proof -
  let ?X = "Put New (Val ''a'') (Val (1::int))"
  have k: "goeq (Val ''a'') (Val ''a'')" and v: "goeq (Val (1::int)) (Val 1)"
    by simp_all
  have c: "Contains ?X (Val ''a'') (Val 1)"
    by (simp add: Contains_def Put_def New_def lookup_def)
  have n: "\<not> Contains ?X (Val ''a'') (Val 2)"
    by (simp add: Contains_def Put_def New_def lookup_def)
  have s: "Size ?X = 1"
    by (simp add: Size_def Put_def New_def lookup_def)
  from k v c n s
    Put_adds_the_pair [of "New :: (string, int) MultiMap" "Val ''a''" "Val 1"]
    Put_adds_the_pair [of ?X "Val ''a''" "Val 1"]
    Put_adds_the_pair [of ?X "Val ''a''" "Val 2"]
  show ?thesis by simp
qed

subsection \<open>Put followed by Remove\<close>

lemma map_index_Remove_Put:
  assumes "goeq v v"
  shows "map_index (m (Remove (Put mm key v) key v)) key =
     (if goeq key key \<and> map_delete (fst (lookup (m mm) key)) v \<noteq> []
      then Some (map_delete (fst (lookup (m mm) key)) v) else None)"
proof (cases "goeq key key")
  case True
  with assms show ?thesis
    by (simp add: map_index_Remove map_index_Put map_delete_assign)
next
  case False
  then show ?thesis by (simp add: map_index_absent)
qed

lemma map_delete_Nil_iff:
  "goeq v v \<Longrightarrow> map_delete s v = [] \<longleftrightarrow> (\<forall>v' \<in> set (map fst s). v' = v)"
  unfolding map_delete_def
  by (induction s) (auto simp: goeq_self)

lemma lookup_absent: "\<not> goeq key key \<Longrightarrow> lookup al key = ([], False)"
  by (simp add: lookup_def map_index_absent)

lemma ContainsKey_Remove_Put:
  assumes "goeq v v"
  shows "ContainsKey (Remove (Put mm key v) key v) key \<longleftrightarrow>
         (\<exists>v' \<in> set (map fst (fst (lookup (m mm) key))). v' \<noteq> v)"
proof (cases "goeq key key")
  case True
  with assms show ?thesis
    by (simp add: ContainsKey_iff map_index_Remove_Put map_delete_Nil_iff)
next
  case False
  with assms show ?thesis
    by (simp add: ContainsKey_iff map_index_Remove_Put lookup_absent)
qed

lemma ContainsKey_Remove_Put_fresh:
  assumes "nonempty_sets mm" and "goeq v v" and "\<not> Contains mm key v"
  shows "ContainsKey (Remove (Put mm key v) key v) key = ContainsKey mm key"
proof (cases "map_index (m mm) key")
  case None
  then have "\<not> ContainsKey mm key"
    by (simp add: ContainsKey_iff)
  moreover have "\<not> ContainsKey (Remove (Put mm key v) key v) key"
    using assms(2) None by (simp add: ContainsKey_Remove_Put lookup_None)
  ultimately show ?thesis by simp
next
  case (Some s)
  with assms(1) have "s \<noteq> []" by (rule ne_lookup)
  then obtain e where e: "e \<in> set (map fst s)" by (cases s) auto
  from assms(2,3) Some have "v \<notin> fst ` set s" by (simp add: Contains_iff)
  with e have "\<exists>v' \<in> set (map fst s). v' \<noteq> v" by auto
  then have "ContainsKey (Remove (Put mm key v) key v) key"
    using Some assms(2) by (simp add: ContainsKey_Remove_Put lookup_Some)
  moreover have "ContainsKey mm key"
    using Some by (simp add: ContainsKey_iff)
  ultimately show ?thesis by simp
qed

lemma not_Contains_Remove_Put: "\<not> Contains (Remove (Put mm key v) key v) key v"
proof (cases "goeq v v")
  case True
  have "v \<notin> fst ` set (map_delete s v)" for s :: "'b Set"
    using True by (auto simp: map_delete_def goeq_self)
  with True show ?thesis
    by (simp add: Contains_iff map_index_Remove_Put)
next
  case False
  then show ?thesis by (simp add: Contains_iff)
qed

text \<open>
  C3, as the specification states it: \<^verbatim>\<open>Put(k, v)\<close> followed by \<^verbatim>\<open>Remove(k, v)\<close> restores
  \<^verbatim>\<open>ContainsKey(k)\<close> to its prior value (false if \<open>k\<close> had no other values) and makes
  \<^verbatim>\<open>Contains(k, v)\<close> false. It does not restore it where \<open>v\<close> was the only value of \<open>k\<close>: the key
  was reported before, and is gone afterwards. And where \<open>v\<close> is not equal to itself,
  \<^verbatim>\<open>Remove\<close> does not find the \<open>v\<close> that \<^verbatim>\<open>Put\<close> stored: the key is reported afterwards
  though it had no other value.
\<close>

theorem Put_Remove_restores_counterexample:
  "reachable (Put New (Val ''a'') (Val (1::int))) \<and>
   ContainsKey (Put New (Val ''a'') (Val (1::int))) (Val ''a'') \<and>
   \<not> ContainsKey
       (Remove (Put (Put New (Val ''a'') (Val (1::int))) (Val ''a'') (Val 1)) (Val ''a'') (Val 1))
       (Val ''a'') \<and>
   \<not> ContainsKey (New :: (string, int) MultiMap) (Val ''a'') \<and>
   ContainsKey (Remove (Put New (Val ''a'') (NaN (0::int))) (Val ''a'') (NaN 0)) (Val ''a'')"
proof -
  have "reachable (Put New (Val ''a'') (Val (1::int)))"
    by (intro reachable.intros)
  then show ?thesis
    by (simp add: ContainsKey_def Remove_def Put_def New_def lookup_def map_delete_def)
qed

text \<open>
  C3, amended. For every key \<open>k\<close>, every value \<open>v\<close> that is equal to itself under \<^verbatim>\<open>==\<close>, and
  every reachable state: after \<^verbatim>\<open>Put(k, v)\<close> and then \<^verbatim>\<open>Remove(k, v)\<close>, \<^verbatim>\<open>ContainsKey(k)\<close> is
  true exactly when \<open>k\<close> had a value other than \<open>v\<close> before (one that \<^verbatim>\<open>Get(k)\<close> returned);
  this is its prior value whenever \<^verbatim>\<open>Contains(k, v)\<close> was false before. \<^verbatim>\<open>Contains(k, v)\<close>
  is false afterwards.
\<close>

theorem Put_then_Remove:
  assumes "reachable mm" and "goeq v v"
  shows "(ContainsKey (Remove (Put mm key v) key v) key \<longleftrightarrow>
            (\<exists>vs found. Get mm key = Inr (vs, found) \<and> (\<exists>v' \<in> set vs. v' \<noteq> v))) \<and>
         (\<not> Contains mm key v \<longrightarrow>
            ContainsKey (Remove (Put mm key v) key v) key = ContainsKey mm key) \<and>
         \<not> Contains (Remove (Put mm key v) key v) key v"
proof (intro conjI impI)
  show "ContainsKey (Remove (Put mm key v) key v) key \<longleftrightarrow>
          (\<exists>vs found. Get mm key = Inr (vs, found) \<and> (\<exists>v' \<in> set vs. v' \<noteq> v))"
    using assms(2) by (simp add: ContainsKey_Remove_Put Get_eq)
  show "ContainsKey (Remove (Put mm key v) key v) key = ContainsKey mm key"
    if "\<not> Contains mm key v"
    using reachable_ne [OF assms(1)] assms(2) that by (rule ContainsKey_Remove_Put_fresh)
  show "\<not> Contains (Remove (Put mm key v) key v) key v"
    by (rule not_Contains_Remove_Put)
qed

theorem Put_then_Remove_witness:
  "reachable (Put New (Val ''a'') (Val (2::int))) \<and> goeq (Val (1::int)) (Val 1) \<and>
   \<not> Contains (Put New (Val ''a'') (Val (2::int))) (Val ''a'') (Val 1) \<and>
   ContainsKey (Put New (Val ''a'') (Val (2::int))) (Val ''a'') \<and>
   ContainsKey
     (Remove (Put (Put New (Val ''a'') (Val (2::int))) (Val ''a'') (Val 1)) (Val ''a'') (Val 1))
     (Val ''a'') \<and>
   \<not> Contains
       (Remove (Put (Put New (Val ''a'') (Val (2::int))) (Val ''a'') (Val 1)) (Val ''a'') (Val 1))
       (Val ''a'') (Val 1)"
proof -
  let ?X = "Put New (Val ''a'') (Val (2::int))"
  have r: "reachable ?X"
    by (intro reachable.intros)
  have v: "goeq (Val (1::int)) (Val 1)" by simp
  have n: "\<not> Contains ?X (Val ''a'') (Val 1)"
    by (simp add: Contains_def Put_def New_def lookup_def)
  have k: "ContainsKey ?X (Val ''a'')"
    by (simp add: ContainsKey_def Put_def New_def lookup_def)
  from r v n k Put_then_Remove [OF r v, of "Val ''a''"] show ?thesis
    by blast
qed

subsection \<open>Size and the flattening views\<close>

lemma go_distinct_distinct:
  "\<forall>x \<in> set xs. goeq x x \<Longrightarrow> go_distinct xs \<longleftrightarrow> distinct xs"
proof (induction xs)
  case Nil
  show ?case by simp
next
  case (Cons x xs)
  then have "goeq x x" by simp
  then have "list_ex (goeq x) xs \<longleftrightarrow> x \<in> set xs"
    by (simp add: list_ex_iff goeq_self_left)
  with Cons show ?case by simp
qed

lemma self_equal_keys: "self_equal mm \<Longrightarrow> key \<in> set (map fst (m mm)) \<Longrightarrow> goeq key key"
  by (auto simp: self_equal_def list_all_iff)

lemma self_equal_members:
  "self_equal mm \<Longrightarrow> (key, s) \<in> set (m mm) \<Longrightarrow> v \<in> set (map fst s) \<Longrightarrow> goeq v v"
  by (fastforce simp: self_equal_def list_all_iff)

lemma plain_distinct_keys:
  assumes "wf mm" and "self_equal mm"
  shows "distinct (map fst (m mm))"
proof -
  have "\<forall>x \<in> set (map fst (m mm)). goeq x x"
    using assms(2) by (blast intro: self_equal_keys)
  then have "go_distinct (map fst (m mm)) \<longleftrightarrow> distinct (map fst (m mm))"
    by (rule go_distinct_distinct)
  with assms(1) show ?thesis by (simp add: wf_def)
qed

lemma plain_distinct_members:
  assumes "wf mm" and "self_equal mm" and "(key, s) \<in> set (m mm)"
  shows "distinct (map fst s)"
proof -
  have "\<forall>x \<in> set (map fst s). goeq x x"
    using assms(2,3) by (blast intro: self_equal_members)
  then have "go_distinct (map fst s) \<longleftrightarrow> distinct (map fst s)"
    by (rule go_distinct_distinct)
  moreover from assms(1,3) have "go_distinct (map fst s)"
    by (auto simp: wf_def list_all_iff)
  ultimately show ?thesis by simp
qed

lemma map_index_entry:
  "distinct (map fst al) \<Longrightarrow> (key, s) \<in> set al \<Longrightarrow> goeq key key \<Longrightarrow>
   map_index al key = Some s"
proof (induction al)
  case Nil
  then show ?case by simp
next
  case (Cons a al)
  obtain e y where a: "a = (e, y)" by (cases a)
  show ?case
  proof (cases "e = key")
    case True
    with Cons.prems a have "y = s" by (auto simp: image_iff)
    with True Cons.prems(3) show ?thesis by (simp add: a)
  next
    case False
    with Cons.prems(3) have "\<not> goeq e key" by (simp add: goeq_self)
    with Cons False show ?thesis by (simp add: a)
  qed
qed

lemma plain_lookup:
  assumes "wf mm" and "self_equal mm" and "(key, s) \<in> set (m mm)"
  shows "lookup (m mm) key = (s, True)"
proof -
  from assms(3) have "key \<in> set (map fst (m mm))"
    by (force simp: image_iff)
  with assms(2) have "goeq key key"
    by (rule self_equal_keys)
  with plain_distinct_keys [OF assms(1,2)] assms(3) have "map_index (m mm) key = Some s"
    by (simp add: map_index_entry)
  then show ?thesis by (rule lookup_Some)
qed

lemma Contains_set:
  assumes "wf mm" and "self_equal mm"
  shows "{v. Contains mm key v} = set (map fst (fst (lookup (m mm) key)))"
proof (cases "map_index (m mm) key")
  case None
  then show ?thesis by (simp add: Contains_iff lookup_None)
next
  case (Some s)
  then have "(key, s) \<in> set (m mm)" by (rule map_index_in_set)
  with assms(2) have "\<forall>v \<in> set (map fst s). goeq v v"
    by (blast intro: self_equal_members)
  with Some show ?thesis
    by (auto simp: Contains_iff lookup_Some)
qed

lemma ContainsKey_set:
  assumes "self_equal mm"
  shows "{key. ContainsKey mm key} = set (map fst (m mm))"
proof -
  have "goeq key key" if "key \<in> fst ` set (m mm)" for key
    using assms that by (simp add: self_equal_keys)
  then show ?thesis
    by (auto simp: ContainsKey_iff map_index_found_iff simp del: not_None_eq)
qed

lemma sum_lengths_by_key:
  assumes "wf mm" and "self_equal mm"
  shows "sum_list (map (\<lambda>(key, s). length s) (m mm)) =
         (\<Sum>key \<in> set (map fst (m mm)). card (set (map fst (fst (lookup (m mm) key)))))"
proof -
  have "map (\<lambda>(key, s). length s) (m mm) =
        map (\<lambda>key. card (set (map fst (fst (lookup (m mm) key))))) (map fst (m mm))"
  proof (simp, intro ballI)
    fix a assume a: "a \<in> set (m mm)"
    obtain key s where ks: "a = (key, s)" by (cases a)
    from assms a ks have "distinct (map fst s)"
      by (simp add: plain_distinct_members)
    then have "card (set (map fst s)) = length s"
      using distinct_card [of "map fst s"] by simp
    moreover from assms a ks have "lookup (m mm) key = (s, True)"
      by (simp add: plain_lookup)
    ultimately show "(case a of (key, s) \<Rightarrow> length s) =
                     card (fst ` set (fst (lookup (m mm) (fst a))))"
      by (simp add: ks)
  qed
  then show ?thesis
    using plain_distinct_keys [OF assms] by (simp only: sum_list_distinct_conv_sum_set)
qed

lemma Size_by_key:
  assumes "wf mm" and "self_equal mm"
  shows "Size mm = (\<Sum>key \<in> {key. ContainsKey mm key}. card {v. Contains mm key v})"
  unfolding Size_eq Contains_set [OF assms] ContainsKey_set [OF assms(2)]
  using assms by (rule sum_lengths_by_key)

lemma flat_keys: "flat (\<lambda>key v. key) al = concat (map (\<lambda>(key, s). replicate (length s) key) al)"
  by (induction al) (auto simp: flat_def map_replicate_const)

lemma count_list_const:
  "count_list (map ((\<lambda>v. k) \<circ> g) s) key = (if k = key then length s else 0)"
  by (induction s) auto

lemma count_flat_absent:
  "key \<notin> fst ` set al \<Longrightarrow> count_list (flat (\<lambda>key v. key) al) key = 0"
  by (induction al) (auto simp: flat_def count_list_const)

lemma count_flat_keys:
  "distinct (map fst al) \<Longrightarrow> (key, s) \<in> set al \<Longrightarrow>
   count_list (flat (\<lambda>key v. key) al) key = length s"
proof (induction al)
  case Nil
  then show ?case by simp
next
  case (Cons a al)
  obtain k s0 where a: "a = (k, s0)" by (cases a)
  show ?case
  proof (cases "k = key")
    case True
    with Cons.prems a have "key \<notin> fst ` set al" and "s0 = s" by (auto simp: image_iff)
    with True show ?thesis
      by (simp add: a flat_Cons count_list_const count_flat_absent)
  next
    case False
    with Cons a show ?thesis
      by (simp add: flat_Cons count_list_const)
  qed
qed

lemma count_keys:
  assumes "wf mm" and "self_equal mm"
  shows "count_list (flat (\<lambda>key v. key) (m mm)) key = card {v. Contains mm key v}"
proof (cases "key \<in> fst ` set (m mm)")
  case True
  then obtain s where s: "(key, s) \<in> set (m mm)" by auto
  with assms have "lookup (m mm) key = (s, True)" by (simp add: plain_lookup)
  moreover from assms s have "distinct (map fst s)" by (simp add: plain_distinct_members)
  then have "card (set (map fst s)) = length s"
    using distinct_card [of "map fst s"] by simp
  moreover have "count_list (flat (\<lambda>key v. key) (m mm)) key = length s"
    using plain_distinct_keys [OF assms] s by (rule count_flat_keys)
  ultimately show ?thesis
    by (simp add: Contains_set [OF assms])
next
  case False
  then have "map_index (m mm) key = None"
    using map_index_found_iff [of "m mm" key] by simp
  with False show ?thesis
    by (simp add: Contains_set [OF assms] lookup_None count_flat_absent)
qed

lemma set_flat: "set (flat f al) = (\<Union>(key, s) \<in> set al. f key ` set (map fst s))"
  by (induction al) (auto simp: flat_def)

lemma set_flat_Contains:
  assumes "wf mm" and "self_equal mm"
  shows "set (flat f (m mm)) = {f key v | key v. Contains mm key v}"
proof (intro set_eqI iffI)
  fix x assume "x \<in> set (flat f (m mm))"
  then obtain key s v where ks: "(key, s) \<in> set (m mm)" and v: "v \<in> set (map fst s)"
      and x: "x = f key v"
    by (auto simp: set_flat)
  from assms ks have "lookup (m mm) key = (s, True)" by (simp add: plain_lookup)
  with v have "v \<in> {v. Contains mm key v}"
    by (simp add: Contains_set [OF assms])
  with x show "x \<in> {f key v | key v. Contains mm key v}" by auto
next
  fix x assume "x \<in> {f key v | key v. Contains mm key v}"
  then obtain key v where c: "Contains mm key v" and x: "x = f key v" by auto
  from c obtain s where s: "map_index (m mm) key = Some s" and v: "v \<in> fst ` set s"
    by (auto simp: Contains_iff)
  from s have "(key, s) \<in> set (m mm)" by (rule map_index_in_set)
  with v x show "x \<in> set (flat f (m mm))"
    by (force simp: set_flat)
qed

lemma distinct_flat_entries:
  assumes "distinct (map fst al)" and "\<forall>(key, s) \<in> set al. distinct (map fst s)"
  shows "distinct (flat (\<lambda>key v. \<lparr>Key = key, Value = v\<rparr>) al)"
  using assms
proof (induction al)
  case Nil
  show ?case by (simp add: flat_def)
next
  case (Cons a al)
  obtain k s where a: "a = (k, s)" by (cases a)
  from Cons.prems a have k: "k \<notin> fst ` set al" and s: "distinct (map fst s)" by auto
  have "distinct (map (\<lambda>v. \<lparr>Key = k, Value = v\<rparr>) (map fst s))"
    using s by (simp only: distinct_map) (simp add: inj_on_def)
  moreover have "set (map (\<lambda>v. \<lparr>Key = k, Value = v\<rparr>) (map fst s)) \<inter>
                 set (flat (\<lambda>key v. \<lparr>Key = key, Value = v\<rparr>) al) = {}"
    using k by (force simp: set_flat)
  moreover have "distinct (flat (\<lambda>key v. \<lparr>Key = key, Value = v\<rparr>) al)"
    using Cons by simp
  ultimately show ?case
    by (simp only: a flat_Cons distinct_append simp_thms)
qed

text \<open>
  C4. \<^verbatim>\<open>Size\<close> is the sum of the sizes of the value sets over all keys. \<^verbatim>\<open>Entries\<close>,
  \<^verbatim>\<open>Keys\<close> and \<^verbatim>\<open>Values\<close> never fail, and each returns a sequence whose length is
  \<^verbatim>\<open>Size\<close>. \<^verbatim>\<open>Keys\<close> lists each key once for every value under it, and \<^verbatim>\<open>Entries\<close> lists each
  stored pair once. Where every key and value held is equal to itself, the same is said
  through \<^verbatim>\<open>ContainsKey\<close> and \<^verbatim>\<open>Contains\<close>.
\<close>

theorem Size_and_views:
  "Size mm = sum_list (map (\<lambda>(key, s). length s) (m mm)) \<and>
   (\<exists>es ks vs. Entries mm = Inr es \<and> Keys mm = Inr ks \<and> Values mm = Inr vs \<and>
      Size mm = length es \<and> length es = length ks \<and> length ks = length vs) \<and>
   Keys mm = Inr (concat (map (\<lambda>(key, s). replicate (length s) key) (m mm))) \<and>
   Entries mm =
     Inr (concat (map (\<lambda>(key, s). map (\<lambda>v. \<lparr>Key = key, Value = v\<rparr>) (map fst s)) (m mm))) \<and>
   (wf mm \<and> self_equal mm \<longrightarrow>
      Size mm = (\<Sum>key \<in> {key. ContainsKey mm key}. card {v. Contains mm key v}) \<and>
      (\<exists>ks. Keys mm = Inr ks \<and> (\<forall>key. count_list ks key = card {v. Contains mm key v})) \<and>
      (\<exists>es. Entries mm = Inr es \<and> distinct es \<and>
            set es = {\<lparr>Key = key, Value = v\<rparr> | key v. Contains mm key v}))"
proof (intro conjI impI)
  show "Size mm = sum_list (map (\<lambda>(key, s). length s) (m mm))"
    by (rule Size_eq)
  show "\<exists>es ks vs. Entries mm = Inr es \<and> Keys mm = Inr ks \<and> Values mm = Inr vs \<and>
      Size mm = length es \<and> length es = length ks \<and> length ks = length vs"
    by (simp add: Entries_eq Keys_eq Values_eq Size_eq length_flat)
  show "Keys mm = Inr (concat (map (\<lambda>(key, s). replicate (length s) key) (m mm)))"
    by (simp add: Keys_eq flat_keys)
  show "Entries mm =
     Inr (concat (map (\<lambda>(key, s). map (\<lambda>v. \<lparr>Key = key, Value = v\<rparr>) (map fst s)) (m mm)))"
    by (simp add: Entries_eq flat_def)
next
  assume "wf mm \<and> self_equal mm"
  then have w: "wf mm" and p: "self_equal mm" by simp_all
  show "Size mm = (\<Sum>key \<in> {key. ContainsKey mm key}. card {v. Contains mm key v})"
    using w p by (rule Size_by_key)
  show "\<exists>ks. Keys mm = Inr ks \<and> (\<forall>key. count_list ks key = card {v. Contains mm key v})"
    by (simp add: Keys_eq count_keys [OF w p])
  have "\<forall>(key, s) \<in> set (m mm). distinct (map fst s)"
    using w p by (auto intro: plain_distinct_members)
  with plain_distinct_keys [OF w p]
  have "distinct (flat (\<lambda>key v. \<lparr>Key = key, Value = v\<rparr>) (m mm))"
    by (rule distinct_flat_entries)
  then show "\<exists>es. Entries mm = Inr es \<and> distinct es \<and>
            set es = {\<lparr>Key = key, Value = v\<rparr> | key v. Contains mm key v}"
    by (simp add: Entries_eq set_flat_Contains [OF w p])
qed

theorem Size_and_views_witness:
  "wf (Put (Put (Put New (Val ''a'') (Val (1::int))) (Val ''a'') (Val 2)) (Val ''b'') (Val 3)) \<and>
   self_equal (Put (Put (Put New (Val ''a'') (Val (1::int))) (Val ''a'') (Val 2)) (Val ''b'') (Val 3)) \<and>
   Size (Put (Put (Put New (Val ''a'') (Val (1::int))) (Val ''a'') (Val 2)) (Val ''b'') (Val 3)) = 3 \<and>
   Keys (Put (Put (Put New (Val ''a'') (Val (1::int))) (Val ''a'') (Val 2)) (Val ''b'') (Val 3))
     = Inr [Val ''a'', Val ''a'', Val ''b''] \<and>
   Values (Put (Put (Put New (Val ''a'') (Val (1::int))) (Val ''a'') (Val 2)) (Val ''b'') (Val 3))
     = Inr [Val 1, Val 2, Val 3] \<and>
   Entries (Put (Put (Put New (Val ''a'') (Val (1::int))) (Val ''a'') (Val 2)) (Val ''b'') (Val 3))
     = Inr [\<lparr>Key = Val ''a'', Value = Val 1\<rparr>, \<lparr>Key = Val ''a'', Value = Val 2\<rparr>,
            \<lparr>Key = Val ''b'', Value = Val 3\<rparr>] \<and>
   (\<Sum>key \<in> {key. ContainsKey
        (Put (Put (Put New (Val ''a'') (Val (1::int))) (Val ''a'') (Val 2)) (Val ''b'') (Val 3)) key}.
      card {v. Contains
        (Put (Put (Put New (Val ''a'') (Val (1::int))) (Val ''a'') (Val 2)) (Val ''b'') (Val 3))
        key v}) = 3"
proof -
  let ?X = "Put (Put (Put New (Val ''a'') (Val (1::int))) (Val ''a'') (Val 2)) (Val ''b'') (Val 3)"
  have e: "m ?X = [(Val ''a'', [(Val 1, ()), (Val 2, ())]), (Val ''b'', [(Val 3, ())])]"
    by (simp add: Put_def New_def lookup_def)
  have w: "wf ?X"
    unfolding wf_def e by simp
  have p: "self_equal ?X"
    unfolding self_equal_def e by simp
  have s: "Size ?X = 3"
    unfolding Size_def e by simp
  have k: "Keys ?X = Inr [Val ''a'', Val ''a'', Val ''b'']"
    unfolding Keys_def Size_def e by (simp add: make_def store_def)
  have v: "Values ?X = Inr [Val 1, Val 2, Val 3]"
    unfolding Values_def Size_def e by (simp add: make_def store_def)
  have n: "Entries ?X =
     Inr [\<lparr>Key = Val ''a'', Value = Val 1\<rparr>, \<lparr>Key = Val ''a'', Value = Val 2\<rparr>,
          \<lparr>Key = Val ''b'', Value = Val 3\<rparr>]"
    unfolding Entries_def Size_def e by (simp add: store_def)
  from w p s k v n Size_and_views [of ?X]
  show ?thesis by simp
qed

subsection \<open>PutAll\<close>














subsection \<open>Get\<close>

lemma Get_absent: "map_index (m mm) key = None \<Longrightarrow> Get mm key = Inr ([], False)"
  by (simp add: Get_eq lookup_None)

lemma Get_present: "map_index (m mm) key = Some s \<Longrightarrow> Get mm key = Inr (map fst s, True)"
  by (simp add: Get_eq lookup_Some)

lemma wf_lookup: "wf mm \<Longrightarrow> map_index (m mm) key = Some s \<Longrightarrow> go_distinct (map fst s)"
  unfolding wf_def
  by (elim conjE) (rule map_index_list_all [where P = "\<lambda>s. go_distinct (map fst s)"])

text \<open>
  C6. \<^verbatim>\<open>Get\<close> never fails. For an absent key it returns the empty sequence and
  \<open>found = false\<close>. For a present key it returns \<open>found = true\<close> and the members of the
  key's value set, none of them twice: no two of them are \<^verbatim>\<open>==\<close>. The values for which
  \<^verbatim>\<open>Contains\<close> holds are the members that are equal to themselves, which is all of them
  where no NaN is held.
\<close>

theorem Get_absent_or_present:
  "(\<not> ContainsKey mm key \<longrightarrow> Get mm key = Inr ([], False)) \<and>
   (ContainsKey mm key \<longrightarrow>
      (\<exists>vs s. Get mm key = Inr (vs, True) \<and> map_index (m mm) key = Some s \<and> vs = map fst s \<and>
            {v. Contains mm key v} = {v \<in> set vs. goeq v v} \<and>
            (wf mm \<longrightarrow> go_distinct vs) \<and>
            (self_equal mm \<longrightarrow> set vs = {v. Contains mm key v}) \<and>
            (wf mm \<and> self_equal mm \<longrightarrow> distinct vs)))"
proof (intro conjI impI)
  assume "\<not> ContainsKey mm key"
  then show "Get mm key = Inr ([], False)"
    by (simp add: ContainsKey_iff Get_absent)
next
  assume "ContainsKey mm key"
  then obtain s where s: "map_index (m mm) key = Some s"
    by (auto simp: ContainsKey_iff)
  then have in_m: "(key, s) \<in> set (m mm)" by (rule map_index_in_set)
  have c: "{v. Contains mm key v} = {v \<in> set (map fst s). goeq v v}"
    using s by (auto simp: Contains_iff)
  have d: "wf mm \<longrightarrow> go_distinct (map fst s)"
    using s by (auto dest: wf_lookup)
  have e: "self_equal mm \<longrightarrow> set (map fst s) = {v. Contains mm key v}"
    unfolding c using in_m by (blast intro: self_equal_members)
  have f: "wf mm \<and> self_equal mm \<longrightarrow> distinct (map fst s)"
    using in_m by (auto intro: plain_distinct_members)
  from c d e f show "\<exists>vs s. Get mm key = Inr (vs, True) \<and> map_index (m mm) key = Some s \<and>
            vs = map fst s \<and>
            {v. Contains mm key v} = {v \<in> set vs. goeq v v} \<and>
            (wf mm \<longrightarrow> go_distinct vs) \<and>
            (self_equal mm \<longrightarrow> set vs = {v. Contains mm key v}) \<and>
            (wf mm \<and> self_equal mm \<longrightarrow> distinct vs)"
    using s by (simp only: Get_present [OF s]) blast
qed

theorem Get_absent_or_present_witness:
  "\<not> ContainsKey (Put (Put New (Val ''a'') (Val (1::int))) (Val ''a'') (Val 2)) (Val ''b'') \<and>
   Get (Put (Put New (Val ''a'') (Val (1::int))) (Val ''a'') (Val 2)) (Val ''b'') = Inr ([], False) \<and>
   ContainsKey (Put (Put New (Val ''a'') (Val (1::int))) (Val ''a'') (Val 2)) (Val ''a'') \<and>
   wf (Put (Put New (Val ''a'') (Val (1::int))) (Val ''a'') (Val 2)) \<and>
   self_equal (Put (Put New (Val ''a'') (Val (1::int))) (Val ''a'') (Val 2)) \<and>
   (\<exists>vs. Get (Put (Put New (Val ''a'') (Val (1::int))) (Val ''a'') (Val 2)) (Val ''a'')
           = Inr (vs, True) \<and>
         set vs = {v. Contains (Put (Put New (Val ''a'') (Val (1::int))) (Val ''a'') (Val 2))
                        (Val ''a'') v} \<and>
         distinct vs)"
proof -
  let ?X = "Put (Put New (Val ''a'') (Val (1::int))) (Val ''a'') (Val 2)"
  have e: "m ?X = [(Val ''a'', [(Val 1, ()), (Val 2, ())])]"
    by (simp add: Put_def New_def lookup_def)
  have nb: "\<not> ContainsKey ?X (Val ''b'')"
    unfolding ContainsKey_def e by (simp add: lookup_def)
  have ka: "ContainsKey ?X (Val ''a'')"
    unfolding ContainsKey_def e by (simp add: lookup_def)
  have w: "wf ?X"
    unfolding wf_def e by simp
  have p: "self_equal ?X"
    unfolding self_equal_def e by simp
  from nb ka w p Get_absent_or_present [of ?X "Val ''b''"] Get_absent_or_present [of ?X "Val ''a''"]
  show ?thesis by blast
qed

subsection \<open>Contains and ContainsValue\<close>



lemma Contains_Get:
  "Contains mm key v \<longleftrightarrow>
     goeq v v \<and> ContainsKey mm key \<and> v \<in> set (map fst (fst (lookup (m mm) key)))"
  by (auto simp: Contains_iff ContainsKey_iff lookup_def split: option.splits)





subsection \<open>Other keys are left alone\<close>

lemma lookup_Put_other: "k' \<noteq> key \<Longrightarrow> lookup (m (Put mm key v)) k' = lookup (m mm) k'"
  by (auto simp: lookup_def map_index_Put dest: goeq_eq)

lemma lookup_Remove_other: "k' \<noteq> key \<Longrightarrow> lookup (m (Remove mm key v)) k' = lookup (m mm) k'"
  by (auto simp: lookup_def map_index_Remove dest: goeq_eq)

text \<open>
  C8. \<^verbatim>\<open>Put(k, v)\<close> and \<^verbatim>\<open>Remove(k, v)\<close> leave every other key as it was: for \<open>k' \<noteq> k\<close>,
  \<^verbatim>\<open>Get(k')\<close> returns the same values and the same \<open>found\<close> flag, and \<^verbatim>\<open>ContainsKey(k')\<close>
  and \<^verbatim>\<open>Contains(k', v')\<close> give the same answers, before and after the call.
\<close>

theorem Put_Remove_frame:
  assumes "k' \<noteq> key"
  shows "Get (Put mm key v) k' = Get mm k' \<and>
         ContainsKey (Put mm key v) k' = ContainsKey mm k' \<and>
         Contains (Put mm key v) k' v' = Contains mm k' v' \<and>
         Get (Remove mm key v) k' = Get mm k' \<and>
         ContainsKey (Remove mm key v) k' = ContainsKey mm k' \<and>
         Contains (Remove mm key v) k' v' = Contains mm k' v'"
  using assms
  by (simp add: Get_eq ContainsKey_def Contains_def lookup_Put_other lookup_Remove_other)

theorem Put_Remove_frame_witness:
  "Val ''b'' \<noteq> Val ''a'' \<and>
   Get (Put New (Val ''b'') (Val (3::int))) (Val ''b'') = Inr ([Val 3], True) \<and>
   Get (Put (Put New (Val ''b'') (Val (3::int))) (Val ''a'') (Val 1)) (Val ''b'')
     = Inr ([Val 3], True) \<and>
   Get (Remove (Put New (Val ''b'') (Val (3::int))) (Val ''a'') (Val 3)) (Val ''b'')
     = Inr ([Val 3], True) \<and>
   ContainsKey (Put (Put New (Val ''b'') (Val (3::int))) (Val ''a'') (Val 1)) (Val ''b'') \<and>
   ContainsKey (Remove (Put New (Val ''b'') (Val (3::int))) (Val ''a'') (Val 3)) (Val ''b'')"
proof -
  let ?X = "Put New (Val ''b'') (Val (3::int))"
  have ne: "Val ''b'' \<noteq> Val ''a''" by simp
  have g: "Get ?X (Val ''b'') = Inr ([Val 3], True)"
    by (simp add: Get_def Put_def New_def lookup_def make_def store_def)
  have k: "ContainsKey ?X (Val ''b'')"
    by (simp add: ContainsKey_def Put_def New_def lookup_def)
  from ne g k Put_Remove_frame [OF ne, of ?X "Val 1"] Put_Remove_frame [OF ne, of ?X "Val 3"]
  show ?thesis by simp
qed

subsection \<open>The membership observers agree\<close>

lemma sum_lengths_zero:
  "sum_list (map (\<lambda>(key, s). length s) al) = 0 \<longleftrightarrow> list_all (\<lambda>(key, s). s = []) al"
  by (induction al) auto

lemma Empty_iff:
  assumes "nonempty_sets mm"
  shows "Empty mm \<longleftrightarrow> m mm = []"
proof
  assume "Empty mm"
  then have "sum_list (map (\<lambda>(key, s). length s) (m mm)) = 0"
    by (simp only: Empty_def Size_eq)
  then have e: "list_all (\<lambda>(key, s). s = []) (m mm)"
    by (simp only: sum_lengths_zero)
  show "m mm = []"
  proof (cases "m mm")
    case Nil
    then show ?thesis .
  next
    case (Cons a al)
    with e assms show ?thesis
      by (cases a) (simp add: nonempty_sets_def)
  qed
next
  assume "m mm = []"
  then show "Empty mm" by (simp add: Empty_def Size_eq)
qed

lemma ContainsKey_Get: "ContainsKey mm key \<longleftrightarrow> (\<exists>vs. Get mm key = Inr (vs, True))"
  by (simp add: ContainsKey_def Get_eq)

lemma ContainsKey_values:
  assumes "nonempty_sets mm" and "ContainsKey mm key"
  shows "\<exists>vs. Get mm key = Inr (vs, True) \<and> vs \<noteq> [] \<and>
              ((\<exists>v \<in> set vs. goeq v v) \<longrightarrow> (\<exists>v. Contains mm key v))"
proof -
  from assms(2) obtain s where s: "map_index (m mm) key = Some s"
    by (auto simp: ContainsKey_iff)
  with assms(1) have "s \<noteq> []" by (rule ne_lookup)
  moreover have "(\<exists>v \<in> set (map fst s). goeq v v) \<longrightarrow> (\<exists>v. Contains mm key v)"
    using s by (auto simp: Contains_iff)
  ultimately show ?thesis
    using s by (simp only: Get_present [OF s]) simp
qed

text \<open>
  C9, as the specification states it: \<^verbatim>\<open>ContainsKey(k)\<close> is true if and only if
  \<^verbatim>\<open>Contains(k, v)\<close> holds for some value \<open>v\<close>, in every reachable state. Not so where the
  only values of \<open>k\<close> are not equal to themselves: with \<open>V = float64\<close>, after
  \<^verbatim>\<open>Put("a", NaN)\<close> the key is reported and \<^verbatim>\<open>Contains("a", v)\<close> is false for every \<open>v\<close>.
\<close>

theorem observers_NaN_counterexample:
  "reachable (Put New (Val ''a'') (NaN (0::int))) \<and>
   ContainsKey (Put New (Val ''a'') (NaN (0::int))) (Val ''a'') \<and>
   \<not> (\<exists>v. Contains (Put New (Val ''a'') (NaN (0::int))) (Val ''a'') v)"
proof -
  have "reachable (Put New (Val ''a'') (NaN (0::int)))"
    by (intro reachable.intros)
  then show ?thesis
    by (simp add: ContainsKey_def Contains_def Put_def New_def lookup_def)
qed

text \<open>
  C9, amended. In every reachable state, \<^verbatim>\<open>ContainsKey(k)\<close> is true exactly when \<^verbatim>\<open>Get(k)\<close>
  reports \<open>found = true\<close>, and then \<^verbatim>\<open>Get(k)\<close> returns at least one value. If
  \<^verbatim>\<open>Contains(k, v)\<close> holds for some \<open>v\<close> then \<^verbatim>\<open>ContainsKey(k)\<close> is true; the converse holds
  when \<open>k\<close> has a value that is equal to itself under \<^verbatim>\<open>==\<close>. \<^verbatim>\<open>Empty\<close> is true exactly when
  \<^verbatim>\<open>KeySet\<close> returns the empty sequence.
\<close>

theorem observers_agree:
  assumes "reachable mm"
  shows "(ContainsKey mm key \<longleftrightarrow> (\<exists>vs. Get mm key = Inr (vs, True))) \<and>
         ((\<exists>v. Contains mm key v) \<longrightarrow> ContainsKey mm key) \<and>
         (ContainsKey mm key \<longrightarrow>
            (\<exists>vs. Get mm key = Inr (vs, True) \<and> vs \<noteq> [] \<and>
                  ((\<exists>v \<in> set vs. goeq v v) \<longrightarrow> (\<exists>v. Contains mm key v)))) \<and>
         (Empty mm \<longleftrightarrow> KeySet mm = Inr [])"
proof (intro conjI impI)
  from assms have ne: "nonempty_sets mm" by (rule reachable_ne)
  show "ContainsKey mm key \<longleftrightarrow> (\<exists>vs. Get mm key = Inr (vs, True))"
    by (rule ContainsKey_Get)
  show "ContainsKey mm key" if "\<exists>v. Contains mm key v"
    using that by (auto simp: Contains_Get)
  show "\<exists>vs. Get mm key = Inr (vs, True) \<and> vs \<noteq> [] \<and>
              ((\<exists>v \<in> set vs. goeq v v) \<longrightarrow> (\<exists>v. Contains mm key v))"
    if "ContainsKey mm key"
    using ne that by (rule ContainsKey_values)
  show "Empty mm \<longleftrightarrow> KeySet mm = Inr []"
    using ne by (simp add: Empty_iff KeySet_eq)
qed

theorem observers_agree_witness:
  "reachable (Remove (Put New (Val ''a'') (Val (1::int))) (Val ''a'') (Val 1)) \<and>
   Empty (Remove (Put New (Val ''a'') (Val (1::int))) (Val ''a'') (Val 1)) \<and>
   KeySet (Remove (Put New (Val ''a'') (Val (1::int))) (Val ''a'') (Val 1)) = Inr [] \<and>
   \<not> ContainsKey (Remove (Put New (Val ''a'') (Val (1::int))) (Val ''a'') (Val 1)) (Val ''a'') \<and>
   \<not> (\<exists>v. Contains (Remove (Put New (Val ''a'') (Val (1::int))) (Val ''a'') (Val 1))
             (Val ''a'') v) \<and>
   reachable (Put New (Val ''a'') (Val (1::int))) \<and>
   \<not> Empty (Put New (Val ''a'') (Val (1::int))) \<and>
   KeySet (Put New (Val ''a'') (Val (1::int))) \<noteq> Inr [] \<and>
   ContainsKey (Put New (Val ''a'') (Val (1::int))) (Val ''a'') \<and>
   Get (Put New (Val ''a'') (Val (1::int))) (Val ''a'') = Inr ([Val 1], True) \<and>
   (\<exists>v. Contains (Put New (Val ''a'') (Val (1::int))) (Val ''a'') v)"
proof -
  let ?X = "Remove (Put New (Val ''a'') (Val (1::int))) (Val ''a'') (Val 1)"
  let ?Y = "Put New (Val ''a'') (Val (1::int))"
  have r1: "reachable ?X"
    by (intro reachable.intros)
  have r2: "reachable ?Y"
    by (intro reachable.intros)
  have e1: "Empty ?X"
    by (simp add: Empty_def Size_def Remove_def Put_def New_def lookup_def map_delete_def)
  have e2: "\<not> Empty ?Y"
    by (simp add: Empty_def Size_def Put_def New_def lookup_def)
  have k1: "\<not> ContainsKey ?X (Val ''a'')"
    by (simp add: ContainsKey_def Remove_def Put_def New_def lookup_def map_delete_def)
  have k2: "ContainsKey ?Y (Val ''a'')"
    by (simp add: ContainsKey_def Put_def New_def lookup_def)
  have g2: "Get ?Y (Val ''a'') = Inr ([Val 1], True)"
    by (simp add: Get_def Put_def New_def lookup_def make_def store_def)
  have v2: "\<exists>v \<in> set [Val (1::int)]. goeq v v"
    by simp
  from r1 r2 e1 e2 k1 k2 g2 v2
    observers_agree [OF r1, of "Val ''a''"] observers_agree [OF r2, of "Val ''a''"]
  show ?thesis by (auto simp del: not_None_eq)
qed

subsection \<open>PutAll of no values\<close>

text \<open>
  C10. \<^verbatim>\<open>PutAll(k, vs)\<close> with an empty \<open>vs\<close> returns the multimap unchanged: no entry is made
  for \<open>k\<close>, and \<^verbatim>\<open>ContainsKey(k)\<close>, \<^verbatim>\<open>Size\<close> and every other observation are as before.
\<close>

theorem PutAll_nothing:
  "PutAll mm key [] = mm \<and>
   ContainsKey (PutAll mm key []) key = ContainsKey mm key \<and>
   Size (PutAll mm key []) = Size mm \<and>
   \<not> ContainsKey (PutAll New key []) key"
  by (simp add: ContainsKey_def New_def lookup_def)

end
